theory Spec2Isabelle
  imports Main
begin

section \<open>Promises and the axios instance (services/api.ts)\<close>

text \<open>
  A rejected axios call carries an error object; the components only log it, so it is kept
  as the error code axios attaches: \<open>ECONNABORTED\<close> for a request that ran into the
  instance's \<open>timeout\<close>, \<open>ERR_NETWORK\<close> when no response arrived,
  \<open>ERR_BAD_REQUEST\<close> with the HTTP status for a 4xx response and
  \<open>ERR_BAD_RESPONSE\<close> for a 5xx response. For any other status outside 2xx axios
  rejects with an error that carries no code (\<open>Status_rejected\<close>).
\<close>

datatype axios_error =
    ECONNABORTED
  | ERR_NETWORK
  | ERR_BAD_REQUEST nat
  | ERR_BAD_RESPONSE nat
  | Status_rejected nat

text \<open>
  A promise is modelled by how it settles. An \<^verbatim>\<open>await\<close> on a \<open>Rejected\<close> promise
  throws the error at the await; an \<^verbatim>\<open>async\<close> function whose body throws returns a
  \<open>Rejected\<close> promise.
\<close>

datatype 'a settled = Fulfilled 'a | Rejected axios_error

datatype 'd response = Response (data: 'd) (status: nat)

fun fulfilled :: "'a settled \<Rightarrow> bool" where
  "fulfilled (Fulfilled x) = True"
| "fulfilled (Rejected e) = False"

text \<open>\<^verbatim>\<open>promise.then(f)\<close> for a callback \<open>f\<close> that does not throw.\<close>

fun then_promise :: "'a settled \<Rightarrow> ('a \<Rightarrow> 'b) \<Rightarrow> 'b settled" where
  "then_promise (Fulfilled x) f = Fulfilled (f x)"
| "then_promise (Rejected e) f = Rejected e"

text \<open>
  \<^verbatim>\<open>Promise.all\<close>: fulfilled with the values in the order of the input when every
  input is fulfilled, rejected as soon as one input rejects. The reason of the rejection is
  that of the input that rejects first in time, which a settled value does not record;
  the model takes the leftmost rejected input. The callers only log the reason, so no
  state and no property below depends on which reason it is.
\<close>

fun promise_all :: "'a settled list \<Rightarrow> 'a list settled" where
  "promise_all [] = Fulfilled []"
| "promise_all (Rejected e # ps) = Rejected e"
| "promise_all (Fulfilled x # ps) =
     (case promise_all ps of
        Rejected e \<Rightarrow> Rejected e
      | Fulfilled xs \<Rightarrow> Fulfilled (x # xs))"

text \<open>
  \<^verbatim>\<open>const api = axios.create({ baseURL: API_BASE_URL, timeout: 10000 })\<close>.
  What the network does with one request is an \<open>exchange\<close>: the time until the reply
  and the reply itself. The instance aborts a request that takes longer than \<open>timeout\<close>
  milliseconds and rejects a reply whose status is not 2xx, with the code that goes with
  the status.
\<close>

definition timeout :: nat where
  "timeout = 10000"

datatype 'd server_reply = Replied nat 'd | Unreachable

record 'd exchange =
  elapsed_ms :: nat
  reply :: "'d server_reply"

definition api_request :: "'d exchange \<Rightarrow> 'd response settled" where
  "api_request x =
     (if timeout < elapsed_ms x then Rejected ECONNABORTED
      else case reply x of
             Unreachable \<Rightarrow> Rejected ERR_NETWORK
           | Replied st d \<Rightarrow>
               if 200 \<le> st \<and> st < 300 then Fulfilled (Response d st)
               else if 400 \<le> st \<and> st < 500 then Rejected (ERR_BAD_REQUEST st)
               else if 500 \<le> st \<and> st < 600 then Rejected (ERR_BAD_RESPONSE st)
               else Rejected (Status_rejected st))"

text \<open>
  A template string prints an integer in decimal, digit by digit, as long as the number
  holds it exactly (up to \<open>2 ^ 53 - 1\<close>); \<open>show_nat\<close> is that printing and is used
  at no other number. The components pass 20.
\<close>

fun show_nat :: "nat \<Rightarrow> string" where
  "show_nat n =
     (if n < 10 then [''0123456789'' ! n]
      else show_nat (n div 10) @ [''0123456789'' ! (n mod 10)])"

declare show_nat.simps [simp del]

text \<open>
  The services. Each is \<^verbatim>\<open>const response = await api.get(url); return response.data\<close>
  with no \<^verbatim>\<open>try\<close> around the await. The first argument is the instance's
  \<^verbatim>\<open>api.get\<close> (or \<^verbatim>\<open>api.post\<close>): the settled result for each URL (and body).
\<close>

definition getWeather :: "(string \<Rightarrow> 'w response settled) \<Rightarrow> string \<Rightarrow> 'w settled" where
  "getWeather api_get city = then_promise (api_get (''/weather/'' @ city)) data"

definition analyzeThreat :: "(string \<Rightarrow> 't response settled) \<Rightarrow> string \<Rightarrow> 't settled" where
  "analyzeThreat api_post region = then_promise (api_post (''/analyze-threat/'' @ region)) data"

definition getAlerts :: "(string \<Rightarrow> 'a response settled) \<Rightarrow> nat \<Rightarrow> 'a settled" where
  "getAlerts api_get limit = then_promise (api_get (''/alerts?limit='' @ show_nat limit)) data"

definition generateTestAlerts :: "(string \<Rightarrow> 'g response settled) \<Rightarrow> 'g settled" where
  "generateTestAlerts api_post = then_promise (api_post ''/test/generate-alerts'') data"

definition submitReport :: "(string \<Rightarrow> 'r \<Rightarrow> 'x response settled) \<Rightarrow> 'r \<Rightarrow> 'x settled" where
  "submitReport api_post report = then_promise (api_post ''/citizen-report'' report) data"

definition getReports :: "(string \<Rightarrow> 'a response settled) \<Rightarrow> nat \<Rightarrow> 'a settled" where
  "getReports api_get limit =
     then_promise (api_get (''/citizen-reports?limit='' @ show_nat limit)) data"

definition getDashboardData :: "(string \<Rightarrow> 'd response settled) \<Rightarrow> 'd settled" where
  "getDashboardData api_get = then_promise (api_get ''/simulation/dashboard'') data"


section \<open>Component instances\<close>

text \<open>
  A mounted component is its React state (\<^verbatim>\<open>useState\<close>) together with what the
  browser holds for it. The fields shared by the polling components:
  \<^item> \<open>loading\<close>: the \<^verbatim>\<open>loading\<close> state, initially \<^verbatim>\<open>true\<close>;
  \<^item> \<open>interval\<close>: the timer of \<^verbatim>\<open>setInterval\<close> is armed;
  \<^item> \<open>mounted\<close>: the component is on screen, so its buttons can be clicked;
  \<^item> \<open>inflight\<close>: calls of the fetch function that have issued their requests and are
    suspended at their \<^verbatim>\<open>await\<close> (the cycles in flight);
  \<^item> \<open>published\<close>: the data the view has received through the data setter
    (\<^verbatim>\<open>setAlerts\<close>, \<^verbatim>\<open>setWeatherData\<close>, \<^verbatim>\<open>setDashboardData\<close>,
    \<^verbatim>\<open>setReports\<close>), oldest first.
  No function of the repository looks at whether the component is still mounted; React
  does: a state update of a component that is no longer mounted is discarded. So a data
  setter leaves an unmounted instance as it is. The flags (\<open>loading\<close>,
  \<open>refreshing\<close>, \<open>generating\<close>, \<open>showForm\<close>) keep the value the code last passed
  to their setter; nothing renders them after the unmount.
\<close>

record 'p polling =
  loading :: bool
  interval :: bool
  mounted :: bool
  inflight :: nat
  published :: "'p list"

definition setLoading :: "bool \<Rightarrow> ('p, 'z) polling_scheme \<Rightarrow> ('p, 'z) polling_scheme" where
  "setLoading b s = s\<lparr>loading := b\<rparr>"

text \<open>Calling a service issues its request; the caller is then suspended at the await.\<close>

definition issue :: "('p, 'z) polling_scheme \<Rightarrow> ('p, 'z) polling_scheme" where
  "issue s = s\<lparr>inflight := Suc (inflight s)\<rparr>"

definition settle :: "('p, 'z) polling_scheme \<Rightarrow> ('p, 'z) polling_scheme" where
  "settle s = s\<lparr>inflight := inflight s - 1\<rparr>"

text \<open>The cleanup of every \<^verbatim>\<open>useEffect\<close>: \<^verbatim>\<open>return () => clearInterval(interval)\<close>.\<close>

definition cleanup :: "('p, 'z) polling_scheme \<Rightarrow> ('p, 'z) polling_scheme" where
  "cleanup s = s\<lparr>interval := False, mounted := False\<rparr>"

text \<open>
  What can happen to a mounted instance, one event per turn of the event loop. A
  \<open>Fetch_settles\<close> event resumes one suspended fetch and carries what the network did
  with its requests. \<open>Generate_settles\<close> and \<open>Chained_settles\<close> belong to
  \<^verbatim>\<open>generateTestAlerts\<close> of the alerts panel, which ignores the data its POST returns;
  the components without that button take \<open>unit\<close> there.
\<close>

datatype ('n, 'm) event =
    Tick
  | Click_Refresh
  | Click_Generate
  | Fetch_settles 'n
  | Generate_settles 'm
  | Chained_settles 'n
  | Unmount

subsection \<open>WeatherMonitor\<close>

record ('w, 't) WeatherMonitor = "(string \<rightharpoonup> 'w) polling" +
  weatherData :: "string \<rightharpoonup> 'w"
  threatAnalyses :: "string \<rightharpoonup> 't"
  refreshing :: bool

definition regions :: "string list" where
  "regions = [''delhi'', ''mumbai'', ''bangalore'', ''chennai'', ''kolkata'']"

definition weatherPromises ::
  "(string \<Rightarrow> 'w response settled) \<Rightarrow> string list \<Rightarrow> (string \<times> 'w) settled list" where
  "weatherPromises api_get rs =
     map (\<lambda>region. then_promise (getWeather api_get region) (\<lambda>d. (region, d))) rs"

definition threatPromises ::
  "(string \<Rightarrow> 't response settled) \<Rightarrow> string list \<Rightarrow> (string \<times> 't) settled list" where
  "threatPromises api_post rs =
     map (\<lambda>region. then_promise (analyzeThreat api_post region) (\<lambda>d. (region, d))) rs"

text \<open>
  \<^verbatim>\<open>const newData = {}; results.forEach(({ region, data }) => { newData[region] = data })\<close>
\<close>

definition new_record :: "(string \<times> 'v) list \<Rightarrow> (string \<rightharpoonup> 'v)" where
  "new_record results = fold (\<lambda>(region, d) r. r(region \<mapsto> d)) results Map.empty"

text \<open>
  The body of the \<^verbatim>\<open>try\<close> of \<^verbatim>\<open>fetchWeatherData\<close> up to the setters: both
  \<^verbatim>\<open>Promise.all\<close> are awaited, the weather one first, and a rejection of either
  leaves the block.
\<close>

definition fetchWeatherData_try ::
  "(string \<Rightarrow> 'w response settled) \<Rightarrow> (string \<Rightarrow> 't response settled) \<Rightarrow>
     ((string \<rightharpoonup> 'w) \<times> (string \<rightharpoonup> 't)) settled" where
  "fetchWeatherData_try api_get api_post =
     (case promise_all (weatherPromises api_get regions) of
        Rejected e \<Rightarrow> Rejected e
      | Fulfilled weatherResults \<Rightarrow>
          (case promise_all (threatPromises api_post regions) of
             Rejected e \<Rightarrow> Rejected e
           | Fulfilled threatResults \<Rightarrow>
               Fulfilled (new_record weatherResults, new_record threatResults)))"

definition setWeatherData ::
  "(string \<rightharpoonup> 'w) \<Rightarrow> ('w, 't) WeatherMonitor \<Rightarrow> ('w, 't) WeatherMonitor" where
  "setWeatherData d s =
     (if mounted s then s\<lparr>weatherData := d, published := published s @ [d]\<rparr> else s)"

definition setThreatAnalyses ::
  "(string \<rightharpoonup> 't) \<Rightarrow> ('w, 't) WeatherMonitor \<Rightarrow> ('w, 't) WeatherMonitor" where
  "setThreatAnalyses d s = (if mounted s then s\<lparr>threatAnalyses := d\<rparr> else s)"

definition setRefreshing :: "bool \<Rightarrow> ('w, 't) WeatherMonitor \<Rightarrow> ('w, 't) WeatherMonitor" where
  "setRefreshing b s = s\<lparr>refreshing := b\<rparr>"

text \<open>
  \<^verbatim>\<open>fetchWeatherData\<close> runs in two turns: up to its first await (\<open>begin\<close>), and from
  the moment its promises have settled (\<open>resume\<close>). Between the two awaits it touches no
  state, so the second turn is one step. \<open>fetchWeatherData\<close> is a call that no other
  event interleaves with.
\<close>

definition fetchWeatherData_begin :: "('w, 't) WeatherMonitor \<Rightarrow> ('w, 't) WeatherMonitor" where
  "fetchWeatherData_begin s = setRefreshing True s"

definition fetchWeatherData_resume ::
  "(string \<Rightarrow> 'w response settled) \<Rightarrow> (string \<Rightarrow> 't response settled) \<Rightarrow>
     ('w, 't) WeatherMonitor \<Rightarrow> ('w, 't) WeatherMonitor" where
  "fetchWeatherData_resume api_get api_post s =
     setRefreshing False (setLoading False
       (case fetchWeatherData_try api_get api_post of
          Fulfilled (newWeatherData, newThreatData) \<Rightarrow>
            setThreatAnalyses newThreatData (setWeatherData newWeatherData s)
        | Rejected error \<Rightarrow> s))"

definition fetchWeatherData ::
  "(string \<Rightarrow> 'w response settled) \<Rightarrow> (string \<Rightarrow> 't response settled) \<Rightarrow>
     ('w, 't) WeatherMonitor \<Rightarrow> ('w, 't) WeatherMonitor" where
  "fetchWeatherData api_get api_post s =
     fetchWeatherData_resume api_get api_post (fetchWeatherData_begin s)"

text \<open>
  The instance after its first render and its effect:
  \<^verbatim>\<open>fetchWeatherData(); const interval = setInterval(fetchWeatherData, 60000)\<close>.
\<close>

definition WeatherMonitor_mount :: "('w, 't) WeatherMonitor" where
  "WeatherMonitor_mount =
     issue (fetchWeatherData_begin
       \<lparr>loading = True, interval = True, mounted = True, inflight = 0, published = [],
        weatherData = Map.empty, threatAnalyses = Map.empty, refreshing = False\<rparr>)"

text \<open>
  The Refresh button is rendered once \<open>loading\<close> is false and carries
  \<^verbatim>\<open>disabled={refreshing}\<close>.
\<close>

fun WeatherMonitor_step ::
  "('w, 't) WeatherMonitor \<Rightarrow>
     ((string \<Rightarrow> 'w response settled) \<times> (string \<Rightarrow> 't response settled), unit) event \<Rightarrow>
     ('w, 't) WeatherMonitor" where
  "WeatherMonitor_step s Tick = (if interval s then issue (fetchWeatherData_begin s) else s)"
| "WeatherMonitor_step s Click_Refresh =
     (if mounted s \<and> \<not> loading s \<and> \<not> refreshing s
      then issue (fetchWeatherData_begin s) else s)"
| "WeatherMonitor_step s (Fetch_settles (api_get, api_post)) =
     (if 0 < inflight s then fetchWeatherData_resume api_get api_post (settle s) else s)"
| "WeatherMonitor_step s Unmount = cleanup s"
| "WeatherMonitor_step s Click_Generate = s"
| "WeatherMonitor_step s (Generate_settles m) = s"
| "WeatherMonitor_step s (Chained_settles n) = s"

subsection \<open>AlertsPanel\<close>

text \<open>
  \<open>posting\<close> counts the calls of \<^verbatim>\<open>generateTestAlerts\<close> suspended at their POST,
  \<open>chained\<close> those suspended at their \<^verbatim>\<open>await fetchAlerts()\<close>.
\<close>

record 'a AlertsPanel = "'a list polling" +
  alerts :: "'a list"
  generating :: bool
  posting :: nat
  chained :: nat

definition setAlerts :: "'a list \<Rightarrow> 'a AlertsPanel \<Rightarrow> 'a AlertsPanel" where
  "setAlerts d s =
     (if mounted s then s\<lparr>alerts := d, published := published s @ [d]\<rparr> else s)"

definition setGenerating :: "bool \<Rightarrow> 'a AlertsPanel \<Rightarrow> 'a AlertsPanel" where
  "setGenerating b s = s\<lparr>generating := b\<rparr>"

text \<open>
  \<^verbatim>\<open>fetchAlerts\<close> from the moment \<^verbatim>\<open>alertService.getAlerts(20)\<close> has settled;
  before its await it only issues the request.
\<close>

definition fetchAlerts ::
  "(string \<Rightarrow> 'a list response settled) \<Rightarrow> 'a AlertsPanel \<Rightarrow> 'a AlertsPanel" where
  "fetchAlerts api_get s =
     setLoading False
       (case getAlerts api_get 20 of
          Fulfilled d \<Rightarrow> setAlerts d s
        | Rejected error \<Rightarrow> s)"

definition AlertsPanel_mount :: "'a AlertsPanel" where
  "AlertsPanel_mount =
     issue
       \<lparr>loading = True, interval = True, mounted = True, inflight = 0, published = [],
        alerts = [], generating = False, posting = 0, chained = 0\<rparr>"

text \<open>
  Both buttons are rendered once \<open>loading\<close> is false. Refresh is
  \<^verbatim>\<open>onClick={fetchAlerts}\<close> with no \<^verbatim>\<open>disabled\<close>; Generate carries
  \<^verbatim>\<open>disabled={generating}\<close>. \<^verbatim>\<open>generateTestAlerts\<close> awaits its POST, then
  \<^verbatim>\<open>fetchAlerts()\<close> (which never rejects), and ends with
  \<^verbatim>\<open>setGenerating(false)\<close> on every path.
\<close>

fun AlertsPanel_step ::
  "'a AlertsPanel \<Rightarrow>
     (string \<Rightarrow> 'a list response settled, string \<Rightarrow> unit response settled) event \<Rightarrow>
     'a AlertsPanel" where
  "AlertsPanel_step s Tick = (if interval s then issue s else s)"
| "AlertsPanel_step s Click_Refresh = (if mounted s \<and> \<not> loading s then issue s else s)"
| "AlertsPanel_step s (Fetch_settles api_get) =
     (if 0 < inflight s then fetchAlerts api_get (settle s) else s)"
| "AlertsPanel_step s Click_Generate =
     (if mounted s \<and> \<not> loading s \<and> \<not> generating s
      then (setGenerating True s)\<lparr>posting := Suc (posting s)\<rparr> else s)"
| "AlertsPanel_step s (Generate_settles api_post) =
     (if 0 < posting s then
        (case generateTestAlerts api_post of
           Fulfilled r \<Rightarrow> s\<lparr>posting := posting s - 1, chained := Suc (chained s)\<rparr>
         | Rejected error \<Rightarrow> setGenerating False (s\<lparr>posting := posting s - 1\<rparr>))
      else s)"
| "AlertsPanel_step s (Chained_settles api_get) =
     (if 0 < chained s
      then setGenerating False (fetchAlerts api_get (s\<lparr>chained := chained s - 1\<rparr>)) else s)"
| "AlertsPanel_step s Unmount = cleanup s"

subsection \<open>SystemOverview\<close>

record 'd SystemOverview = "'d polling" +
  dashboardData :: "'d option"

definition setDashboardData :: "'d \<Rightarrow> 'd SystemOverview \<Rightarrow> 'd SystemOverview" where
  "setDashboardData d s =
     (if mounted s then s\<lparr>dashboardData := Some d, published := published s @ [d]\<rparr>
      else s)"

definition fetchDashboardData ::
  "(string \<Rightarrow> 'd response settled) \<Rightarrow> 'd SystemOverview \<Rightarrow> 'd SystemOverview" where
  "fetchDashboardData api_get s =
     setLoading False
       (case getDashboardData api_get of
          Fulfilled d \<Rightarrow> setDashboardData d s
        | Rejected error \<Rightarrow> s)"

definition SystemOverview_mount :: "'d SystemOverview" where
  "SystemOverview_mount =
     issue
       \<lparr>loading = True, interval = True, mounted = True, inflight = 0, published = [],
        dashboardData = None\<rparr>"

text \<open>The dashboard has no button: only the timer starts a fetch.\<close>

fun SystemOverview_step ::
  "'d SystemOverview \<Rightarrow> (string \<Rightarrow> 'd response settled, unit) event \<Rightarrow> 'd SystemOverview" where
  "SystemOverview_step s Tick = (if interval s then issue s else s)"
| "SystemOverview_step s (Fetch_settles api_get) =
     (if 0 < inflight s then fetchDashboardData api_get (settle s) else s)"
| "SystemOverview_step s Unmount = cleanup s"
| "SystemOverview_step s Click_Refresh = s"
| "SystemOverview_step s Click_Generate = s"
| "SystemOverview_step s (Generate_settles m) = s"
| "SystemOverview_step s (Chained_settles n) = s"

subsection \<open>CitizenReports and ReportSubmissionForm\<close>

record 'r CitizenReports = "'r list polling" +
  reports :: "'r list"
  showForm :: bool

definition setReports :: "'r list \<Rightarrow> 'r CitizenReports \<Rightarrow> 'r CitizenReports" where
  "setReports d s =
     (if mounted s then s\<lparr>reports := d, published := published s @ [d]\<rparr> else s)"

definition setShowForm :: "bool \<Rightarrow> 'r CitizenReports \<Rightarrow> 'r CitizenReports" where
  "setShowForm b s = s\<lparr>showForm := b\<rparr>"

definition fetchReports ::
  "(string \<Rightarrow> 'r list response settled) \<Rightarrow> 'r CitizenReports \<Rightarrow> 'r CitizenReports" where
  "fetchReports api_get s =
     setLoading False
       (case getReports api_get 20 of
          Fulfilled d \<Rightarrow> setReports d s
        | Rejected error \<Rightarrow> s)"

text \<open>\<^verbatim>\<open>setShowForm(false); fetchReports()\<close>: the fetch is issued and left in flight.\<close>

definition handleReportSubmitted :: "'r CitizenReports \<Rightarrow> 'r CitizenReports" where
  "handleReportSubmitted s = issue (setShowForm False s)"

text \<open>
  The form's state. Its parent passes the callback \<^verbatim>\<open>onSubmitted\<close>, which acts on
  the parent's state \<open>'p\<close> and is taken not to throw;
  \<^verbatim>\<open>CitizenReports\<close> passes \<open>handleReportSubmitted\<close>.
\<close>

record 'f ReportSubmissionForm =
  formData :: 'f
  submitting :: bool

definition setSubmitting :: "bool \<Rightarrow> 'f ReportSubmissionForm \<Rightarrow> 'f ReportSubmissionForm" where
  "setSubmitting b s = s\<lparr>submitting := b\<rparr>"

text \<open>
  \<^verbatim>\<open>handleSubmit\<close> up to its await, and from the moment
  \<^verbatim>\<open>citizenService.submitReport(formData)\<close> has settled. The state is the form's
  together with the parent's.
\<close>

definition handleSubmit_begin ::
  "'f ReportSubmissionForm \<times> 'p \<Rightarrow> 'f ReportSubmissionForm \<times> 'p" where
  "handleSubmit_begin s = (setSubmitting True (fst s), snd s)"

definition handleSubmit_resume ::
  "('p \<Rightarrow> 'p) \<Rightarrow> 'x settled \<Rightarrow> 'f ReportSubmissionForm \<times> 'p \<Rightarrow>
     'f ReportSubmissionForm \<times> 'p" where
  "handleSubmit_resume onSubmitted submitted s =
     (let (form, parent) =
        (case submitted of
           Fulfilled r \<Rightarrow> (fst s, onSubmitted (snd s))
         | Rejected error \<Rightarrow> s)
      in (setSubmitting False form, parent))"

definition handleSubmit ::
  "('p \<Rightarrow> 'p) \<Rightarrow> (string \<Rightarrow> 'f \<Rightarrow> 'x response settled) \<Rightarrow>
     'f ReportSubmissionForm \<times> 'p \<Rightarrow> 'f ReportSubmissionForm \<times> 'p" where
  "handleSubmit onSubmitted api_post s =
     handleSubmit_resume onSubmitted (submitReport api_post (formData (fst s)))
       (handleSubmit_begin s)"

subsection \<open>Runs\<close>

text \<open>A run: the events of a list, in order.\<close>

definition run :: "('s \<Rightarrow> 'e \<Rightarrow> 's) \<Rightarrow> 's \<Rightarrow> 'e list \<Rightarrow> 's" where
  "run step s es = foldl step s es"

subsection \<open>Sample network behaviours\<close>

text \<open>Every request is answered with status 200 after 120 ms.\<close>

definition all_fine :: "string \<Rightarrow> nat response settled" where
  "all_fine url = api_request \<lparr>elapsed_ms = 120, reply = Replied 200 30\<rparr>"

text \<open>The weather request for Mumbai takes a minute; every other request is answered.\<close>

definition mumbai_times_out :: "string \<Rightarrow> nat response settled" where
  "mumbai_times_out url =
     api_request \<lparr>elapsed_ms = (if url = ''/weather/mumbai'' then 60000 else 120),
                  reply = Replied 200 31\<rparr>"

definition two_alerts :: "string \<Rightarrow> nat list response settled" where
  "two_alerts url = api_request \<lparr>elapsed_ms = 80, reply = Replied 200 [1, 2]\<rparr>"

definition server_down :: "string \<Rightarrow> nat list response settled" where
  "server_down url = api_request \<lparr>elapsed_ms = 5, reply = Unreachable\<rparr>"

text \<open>A report is stored, or refused with status 500.\<close>

definition report_accepted :: "string \<Rightarrow> nat \<Rightarrow> string response settled" where
  "report_accepted url report = api_request \<lparr>elapsed_ms = 200, reply = Replied 201 ''stored''\<rparr>"

definition report_refused :: "string \<Rightarrow> nat \<Rightarrow> string response settled" where
  "report_refused url report = api_request \<lparr>elapsed_ms = 200, reply = Replied 500 ''error''\<rparr>"

section \<open>Properties\<close>

subsection \<open>Promises\<close>

lemma promise_all_map: "promise_all (map Fulfilled xs) = Fulfilled xs"
  by (induction xs) auto

lemma promise_all_fulfilledD: "promise_all ps = Fulfilled xs \<Longrightarrow> ps = map Fulfilled xs"
  by (induction ps arbitrary: xs rule: promise_all.induct) (auto split: settled.splits)

lemma promise_all_rejected:
  "(\<exists>e. promise_all ps = Rejected e) \<longleftrightarrow> (\<exists>e. Rejected e \<in> set ps)"
  by (induction ps rule: promise_all.induct) (auto split: settled.splits)

lemma then_promise_fulfilled:
  "then_promise p f = Fulfilled y \<longleftrightarrow> (\<exists>x. p = Fulfilled x \<and> y = f x)"
  by (cases p) auto

lemma then_promise_rejected:
  "then_promise p f = Rejected e \<longleftrightarrow> p = Rejected e"
  by (cases p) auto

lemma then_promise_rejected':
  "Rejected e = then_promise p f \<longleftrightarrow> p = Rejected e"
  by (cases p) auto

lemma promise_all_fulfilled_iff: "promise_all ps = Fulfilled xs \<longleftrightarrow> ps = map Fulfilled xs"
  using promise_all_map promise_all_fulfilledD by blast

lemma keyed_map_fulfilled:
  "map (\<lambda>region. then_promise (g region) (\<lambda>d. (region, d))) rs = map Fulfilled results \<longleftrightarrow>
     map fst results = rs \<and> (\<forall>(region, d) \<in> set results. g region = Fulfilled d)"
proof (induction rs arbitrary: results)
  case Nil
  then show ?case by auto
next
  case (Cons r rs)
  show ?case
  proof (cases results)
    case Nil
    then show ?thesis by simp
  next
    case (Cons x xs)
    obtain k d where x: "x = (k, d)" by (cases x)
    show ?thesis
      unfolding Cons x using Cons.IH[of xs]
      by (auto simp: then_promise_fulfilled)
  qed
qed

lemma keyed_fulfilled:
  "promise_all (map (\<lambda>region. then_promise (g region) (\<lambda>d. (region, d))) rs) = Fulfilled results \<longleftrightarrow>
     map fst results = rs \<and> (\<forall>(region, d) \<in> set results. g region = Fulfilled d)"
  unfolding promise_all_fulfilled_iff by (rule keyed_map_fulfilled)

lemma weatherPromises_fulfilled:
  "promise_all (weatherPromises api_get rs) = Fulfilled results \<longleftrightarrow>
     map fst results = rs \<and> (\<forall>(region, d) \<in> set results. getWeather api_get region = Fulfilled d)"
  unfolding weatherPromises_def by (rule keyed_fulfilled)


lemma weatherPromises_rejected:
  "(\<exists>e. promise_all (weatherPromises api_get rs) = Rejected e) \<longleftrightarrow>
     (\<exists>region \<in> set rs. \<exists>e. getWeather api_get region = Rejected e)"
  by (auto simp: promise_all_rejected weatherPromises_def then_promise_rejected then_promise_rejected' image_iff)

lemma threatPromises_rejected:
  "(\<exists>e. promise_all (threatPromises api_post rs) = Rejected e) \<longleftrightarrow>
     (\<exists>region \<in> set rs. \<exists>e. analyzeThreat api_post region = Rejected e)"
  by (auto simp: promise_all_rejected threatPromises_def then_promise_rejected then_promise_rejected' image_iff)

lemma try_rejected:
  "(\<exists>e. fetchWeatherData_try api_get api_post = Rejected e) \<longleftrightarrow>
     (\<exists>region \<in> set regions. \<exists>e. getWeather api_get region = Rejected e \<or>
        analyzeThreat api_post region = Rejected e)"
proof -
  have "(\<exists>e. fetchWeatherData_try api_get api_post = Rejected e) \<longleftrightarrow>
     (\<exists>e. promise_all (weatherPromises api_get regions) = Rejected e) \<or>
     (\<exists>e. promise_all (threatPromises api_post regions) = Rejected e)"
    by (auto simp: fetchWeatherData_try_def split: settled.splits)
  then show ?thesis
    unfolding weatherPromises_rejected threatPromises_rejected by blast
qed

lemma resume_rejected:
  "fetchWeatherData_try api_get api_post = Rejected e \<Longrightarrow>
     fetchWeatherData_resume api_get api_post s = s\<lparr>loading := False, refreshing := False\<rparr>"
  by (simp add: fetchWeatherData_resume_def setRefreshing_def setLoading_def)

lemma resume_unmounted:
  "\<not> mounted s \<Longrightarrow>
     fetchWeatherData_resume api_get api_post s = s\<lparr>loading := False, refreshing := False\<rparr>"
  by (simp add: fetchWeatherData_resume_def setRefreshing_def setLoading_def
      setWeatherData_def setThreatAnalyses_def split: settled.splits)

lemma resume_fulfilled:
  "fetchWeatherData_try api_get api_post = Fulfilled (w, t) \<Longrightarrow> mounted s \<Longrightarrow>
     fetchWeatherData_resume api_get api_post s =
       s\<lparr>loading := False, published := published s @ [w], weatherData := w,
         threatAnalyses := t, refreshing := False\<rparr>"
  by (simp add: fetchWeatherData_resume_def setRefreshing_def setLoading_def
      setWeatherData_def setThreatAnalyses_def)





lemma try_fulfilled_all:
  assumes "\<forall>region \<in> set regions. fulfilled (getWeather api_get region) \<and>
             fulfilled (analyzeThreat api_post region)"
  shows "\<exists>w t. fetchWeatherData_try api_get api_post = Fulfilled (w, t)"
proof (cases "fetchWeatherData_try api_get api_post")
  case (Fulfilled x)
  then show ?thesis by (cases x) auto
next
  case (Rejected e)
  then have "\<exists>region \<in> set regions. \<exists>e. getWeather api_get region = Rejected e \<or>
        analyzeThreat api_post region = Rejected e"
    using try_rejected[of api_get api_post] by blast
  with assms show ?thesis by auto
qed

subsection \<open>The fan-out of one cycle\<close>

text \<open>
  Claim C1, as the code has it. A cycle built over any list of keys is fulfilled exactly
  when the fetch of every key is fulfilled, and then holds one result per key, in the
  order of the keys. It is rejected exactly when the fetch of some key is rejected (a
  request that runs into the timeout is one): \<^verbatim>\<open>Promise.all\<close> fails fast, no key
  receives an outcome of its own, and \<^verbatim>\<open>fetchWeatherData\<close> leaves the displayed
  data and the log of published snapshots as they were.
\<close>

theorem fan_out_all_or_nothing:
  "(promise_all (weatherPromises api_get rs) = Fulfilled results \<longleftrightarrow>
      map fst results = rs \<and>
      (\<forall>(region, d) \<in> set results. getWeather api_get region = Fulfilled d))
   \<and> ((\<exists>e. promise_all (weatherPromises api_get rs) = Rejected e) \<longleftrightarrow>
      (\<exists>region \<in> set rs. \<exists>e. getWeather api_get region = Rejected e))
   \<and> ((\<exists>region \<in> set regions. \<exists>e. getWeather api_get region = Rejected e) \<longrightarrow>
        weatherData (fetchWeatherData_resume api_get api_post s) = weatherData s \<and>
        threatAnalyses (fetchWeatherData_resume api_get api_post s) = threatAnalyses s \<and>
        published (fetchWeatherData_resume api_get api_post s) = published s)"
proof (intro conjI impI)
  assume "\<exists>region \<in> set regions. \<exists>e. getWeather api_get region = Rejected e"
  then obtain e where e: "fetchWeatherData_try api_get api_post = Rejected e"
    using try_rejected[of api_get api_post] by blast
  show "weatherData (fetchWeatherData_resume api_get api_post s) = weatherData s"
    by (simp add: resume_rejected[OF e])
  show "threatAnalyses (fetchWeatherData_resume api_get api_post s) = threatAnalyses s"
    by (simp add: resume_rejected[OF e])
  show "published (fetchWeatherData_resume api_get api_post s) = published s"
    by (simp add: resume_rejected[OF e])
qed (rule weatherPromises_fulfilled, rule weatherPromises_rejected)

theorem fan_out_all_or_nothing_witness:
  "getWeather mumbai_times_out ''mumbai'' = Rejected ECONNABORTED \<and>
   weatherData (fetchWeatherData_resume mumbai_times_out all_fine WeatherMonitor_mount) = Map.empty"
proof -
  have m: "getWeather mumbai_times_out ''mumbai'' = Rejected ECONNABORTED"
    by (simp add: getWeather_def mumbai_times_out_def api_request_def timeout_def)
  then have "\<exists>region \<in> set regions. \<exists>e. getWeather mumbai_times_out region = Rejected e"
    by (auto simp: regions_def)
  then have "weatherData (fetchWeatherData_resume mumbai_times_out all_fine WeatherMonitor_mount)
          = weatherData (WeatherMonitor_mount :: (nat, nat) WeatherMonitor)"
    using fan_out_all_or_nothing[of mumbai_times_out regions "[]" all_fine WeatherMonitor_mount,
        THEN conjunct2, THEN conjunct2]
    by simp
  with m show ?thesis
    by (simp add: WeatherMonitor_mount_def fetchWeatherData_begin_def issue_def setRefreshing_def)
qed

text \<open>
  Claim C1 as stated fails: the weather request for Mumbai times out, the one for Delhi is
  answered, and the cycle is rejected as a whole; Delhi has no entry after it.
\<close>

theorem fan_out_fail_fast_counterexample:
  "getWeather mumbai_times_out ''delhi'' = Fulfilled 31 \<and>
   getWeather mumbai_times_out ''mumbai'' = Rejected ECONNABORTED \<and>
   promise_all (weatherPromises mumbai_times_out regions) = Rejected ECONNABORTED \<and>
   weatherData (run WeatherMonitor_step WeatherMonitor_mount
      [Fetch_settles (mumbai_times_out, all_fine)]) ''delhi'' = None"
  by (simp add: getWeather_def mumbai_times_out_def api_request_def timeout_def
      weatherPromises_def regions_def run_def WeatherMonitor_mount_def
      fetchWeatherData_begin_def issue_def settle_def setRefreshing_def setLoading_def
      fetchWeatherData_resume_def fetchWeatherData_try_def)

subsection \<open>What a cycle does to the displayed data\<close>

lemma mounted_WeatherMonitor_mount [simp]: "mounted WeatherMonitor_mount"
  by (simp add: WeatherMonitor_mount_def issue_def fetchWeatherData_begin_def setRefreshing_def)

lemma mounted_AlertsPanel_mount [simp]: "mounted AlertsPanel_mount"
  by (simp add: AlertsPanel_mount_def issue_def)

lemma mounted_resume [simp]:
  "mounted (fetchWeatherData_resume api_get api_post s) = mounted s"
  by (simp add: fetchWeatherData_resume_def setRefreshing_def setLoading_def
      setWeatherData_def setThreatAnalyses_def split: settled.splits)

lemma mounted_begin [simp]: "mounted (fetchWeatherData_begin s) = mounted s"
  by (simp add: fetchWeatherData_begin_def setRefreshing_def)

lemma mounted_fetchAlerts [simp]: "mounted (fetchAlerts api_get s) = mounted s"
  by (simp add: fetchAlerts_def setLoading_def setAlerts_def split: settled.splits)

lemma fetchAlerts_rejected:
  "getAlerts api_get 20 = Rejected e \<Longrightarrow> fetchAlerts api_get s = s\<lparr>loading := False\<rparr>"
  by (simp add: fetchAlerts_def setLoading_def)

lemma fetchAlerts_unmounted:
  "\<not> mounted s \<Longrightarrow> fetchAlerts api_get s = s\<lparr>loading := False\<rparr>"
  by (simp add: fetchAlerts_def setLoading_def setAlerts_def split: settled.splits)

lemma fetchAlerts_fulfilled:
  "getAlerts api_get 20 = Fulfilled d \<Longrightarrow> mounted s \<Longrightarrow>
     fetchAlerts api_get s = s\<lparr>loading := False, published := published s @ [d], alerts := d\<rparr>"
  by (simp add: fetchAlerts_def setLoading_def setAlerts_def)

text \<open>
  Claim C2, as the code has it. When the fetch of some region fails in a cycle (its weather
  or its threat request is rejected), \<^verbatim>\<open>fetchWeatherData\<close> leaves both records as
  they were: a region that had an entry keeps its value, a region that had none still has
  none. The alerts panel likewise keeps its list when \<^verbatim>\<open>getAlerts\<close> is rejected. The
  state holds no time of fetching and no freshness flag, so nothing is marked stale.
\<close>

theorem failing_key_keeps_snapshot:
  "(region \<in> set regions \<and>
      (getWeather api_get region = Rejected e \<or> analyzeThreat api_post region = Rejected e) \<longrightarrow>
        weatherData (fetchWeatherData_resume api_get api_post s) = weatherData s \<and>
        threatAnalyses (fetchWeatherData_resume api_get api_post s) = threatAnalyses s)
   \<and> (getAlerts alerts_get 20 = Rejected e' \<longrightarrow>
        alerts (fetchAlerts alerts_get a) = alerts a)"
proof (intro conjI impI)
  assume "region \<in> set regions \<and>
      (getWeather api_get region = Rejected e \<or> analyzeThreat api_post region = Rejected e)"
  then obtain e where e: "fetchWeatherData_try api_get api_post = Rejected e"
    using try_rejected[of api_get api_post] by blast
  show "weatherData (fetchWeatherData_resume api_get api_post s) = weatherData s"
    by (simp add: resume_rejected[OF e])
  show "threatAnalyses (fetchWeatherData_resume api_get api_post s) = threatAnalyses s"
    by (simp add: resume_rejected[OF e])
next
  assume "getAlerts alerts_get 20 = Rejected e'"
  then show "alerts (fetchAlerts alerts_get a) = alerts a"
    by (simp add: fetchAlerts_rejected)
qed

lemma all_fine_try:
  "fetchWeatherData_try all_fine all_fine =
     Fulfilled (new_record (map (\<lambda>r. (r, 30)) regions), new_record (map (\<lambda>r. (r, 30)) regions))"
  by (simp add: fetchWeatherData_try_def weatherPromises_def threatPromises_def regions_def
      getWeather_def analyzeThreat_def all_fine_def api_request_def timeout_def)

lemma mumbai_try:
  "fetchWeatherData_try mumbai_times_out all_fine = Rejected ECONNABORTED"
  by (simp add: fetchWeatherData_try_def weatherPromises_def regions_def
      getWeather_def mumbai_times_out_def api_request_def timeout_def)

text \<open>
  Claim C2 at a concrete input: after a cycle that succeeded, the weather request for
  Mumbai times out; the entry of Mumbai is the one the first cycle stored.
\<close>

theorem failing_key_keeps_snapshot_witness:
  "''mumbai'' \<in> set regions \<and>
   getWeather mumbai_times_out ''mumbai'' = Rejected ECONNABORTED \<and>
   weatherData (fetchWeatherData_resume mumbai_times_out all_fine
      (fetchWeatherData_resume all_fine all_fine WeatherMonitor_mount)) ''mumbai'' = Some 30 \<and>
   getAlerts server_down 20 = Rejected ERR_NETWORK \<and>
   alerts (fetchAlerts server_down (fetchAlerts two_alerts AlertsPanel_mount)) = [1, 2]"
proof -
  let ?s = "fetchWeatherData_resume all_fine all_fine (WeatherMonitor_mount :: (nat, nat) WeatherMonitor)"
  let ?a = "fetchAlerts two_alerts AlertsPanel_mount"
  have r: "''mumbai'' \<in> set regions" by (simp add: regions_def)
  have m: "getWeather mumbai_times_out ''mumbai'' = Rejected ECONNABORTED"
    by (simp add: getWeather_def mumbai_times_out_def api_request_def timeout_def)
  have d: "getAlerts server_down 20 = Rejected ERR_NETWORK"
    by (simp add: getAlerts_def server_down_def api_request_def timeout_def)
  have t: "getAlerts two_alerts 20 = Fulfilled [1, 2]"
    by (simp add: getAlerts_def two_alerts_def api_request_def timeout_def)
  have "weatherData (fetchWeatherData_resume mumbai_times_out all_fine ?s) = weatherData ?s"
    using failing_key_keeps_snapshot[of "''mumbai''" mumbai_times_out ECONNABORTED all_fine ?s
        server_down ERR_NETWORK ?a, THEN conjunct1] r m by simp
  moreover have "weatherData ?s ''mumbai'' = Some 30"
    by (simp add: resume_fulfilled[OF all_fine_try] new_record_def regions_def)
  moreover have "alerts (fetchAlerts server_down ?a) = alerts ?a"
    using failing_key_keeps_snapshot[of "''mumbai''" mumbai_times_out ECONNABORTED all_fine ?s
        server_down ERR_NETWORK ?a, THEN conjunct2] d by simp
  moreover have "alerts ?a = [1, 2]"
    by (simp add: fetchAlerts_fulfilled[OF t])
  ultimately show ?thesis using r m d by simp
qed

text \<open>
  Claim C2 as stated fails in its freshness flag: the instance after a successful cycle and
  the instance after that cycle followed by a failing one are the same state, so no flag
  read from the state is fresh in the first and stale in the second.
\<close>

theorem no_stale_marking_counterexample:
  "weatherData (run WeatherMonitor_step WeatherMonitor_mount
      [Fetch_settles (all_fine, all_fine), Tick,
       Fetch_settles (mumbai_times_out, all_fine)])
      ''mumbai'' = Some 30 \<and>
   \<not> (\<exists>fresh :: (nat, nat) WeatherMonitor \<Rightarrow> string \<Rightarrow> bool.
        fresh (run WeatherMonitor_step WeatherMonitor_mount
          [Fetch_settles (all_fine, all_fine)]) ''mumbai'' \<and>
        \<not> fresh (run WeatherMonitor_step WeatherMonitor_mount
          [Fetch_settles (all_fine, all_fine), Tick,
           Fetch_settles (mumbai_times_out, all_fine)]) ''mumbai'')"
proof -
  let ?s1 = "run WeatherMonitor_step (WeatherMonitor_mount :: (nat, nat) WeatherMonitor)
          [Fetch_settles (all_fine, all_fine)]"
  let ?s2 = "run WeatherMonitor_step (WeatherMonitor_mount :: (nat, nat) WeatherMonitor)
          [Fetch_settles (all_fine, all_fine), Tick,
           Fetch_settles (mumbai_times_out, all_fine)]"
  have s1: "?s1 = \<lparr>loading = False, interval = True, mounted = True, inflight = 0,
      published = [new_record (map (\<lambda>r. (r, 30)) regions)],
      weatherData = new_record (map (\<lambda>r. (r, 30)) regions),
      threatAnalyses = new_record (map (\<lambda>r. (r, 30)) regions), refreshing = False\<rparr>"
    by (simp add: run_def WeatherMonitor_mount_def fetchWeatherData_begin_def issue_def
        settle_def setRefreshing_def resume_fulfilled[OF all_fine_try])
  have s2: "?s2 = ?s1"
    unfolding s1
    by (simp add: run_def WeatherMonitor_mount_def fetchWeatherData_begin_def issue_def
        settle_def setRefreshing_def resume_fulfilled[OF all_fine_try]
        resume_rejected[OF mumbai_try])
  have "weatherData ?s1 ''mumbai'' = Some 30"
    unfolding s1 by (simp add: new_record_def regions_def)
  then show ?thesis unfolding s2 by simp
qed


text \<open>
  Claim C4. When every region's weather and threat fetch succeeds, running the cycle a
  second time with the same values gives the same records and flags as running it once.
\<close>

theorem merge_idempotent_on_success:
  "(\<forall>region \<in> set regions. fulfilled (getWeather api_get region) \<and>
       fulfilled (analyzeThreat api_post region)) \<longrightarrow>
   weatherData (fetchWeatherData api_get api_post (fetchWeatherData api_get api_post s)) =
     weatherData (fetchWeatherData api_get api_post s) \<and>
   threatAnalyses (fetchWeatherData api_get api_post (fetchWeatherData api_get api_post s)) =
     threatAnalyses (fetchWeatherData api_get api_post s) \<and>
   loading (fetchWeatherData api_get api_post (fetchWeatherData api_get api_post s)) =
     loading (fetchWeatherData api_get api_post s) \<and>
   refreshing (fetchWeatherData api_get api_post (fetchWeatherData api_get api_post s)) =
     refreshing (fetchWeatherData api_get api_post s)"
proof
  assume "\<forall>region \<in> set regions. fulfilled (getWeather api_get region) \<and>
       fulfilled (analyzeThreat api_post region)"
  then obtain w t where f: "fetchWeatherData_try api_get api_post = Fulfilled (w, t)"
    using try_fulfilled_all by blast
  show "weatherData (fetchWeatherData api_get api_post (fetchWeatherData api_get api_post s)) =
     weatherData (fetchWeatherData api_get api_post s) \<and>
   threatAnalyses (fetchWeatherData api_get api_post (fetchWeatherData api_get api_post s)) =
     threatAnalyses (fetchWeatherData api_get api_post s) \<and>
   loading (fetchWeatherData api_get api_post (fetchWeatherData api_get api_post s)) =
     loading (fetchWeatherData api_get api_post s) \<and>
   refreshing (fetchWeatherData api_get api_post (fetchWeatherData api_get api_post s)) =
     refreshing (fetchWeatherData api_get api_post s)"
  proof (cases "mounted s")
    case True
    then show ?thesis
      by (simp add: fetchWeatherData_def resume_fulfilled[OF f])
  next
    case False
    then show ?thesis
      by (simp add: fetchWeatherData_def resume_unmounted fetchWeatherData_begin_def
          setRefreshing_def)
  qed
qed

text \<open>Claim C4 at a concrete input.\<close>

theorem merge_idempotent_on_success_witness:
  "list_all (\<lambda>region. fulfilled (getWeather all_fine region) \<and>
       fulfilled (analyzeThreat all_fine region)) regions \<and>
   weatherData (fetchWeatherData all_fine all_fine
       (fetchWeatherData all_fine all_fine (WeatherMonitor_mount\<lparr>weatherData := [''pune'' \<mapsto> 7]\<rparr>))) =
     weatherData (fetchWeatherData all_fine all_fine
       (WeatherMonitor_mount\<lparr>weatherData := [''pune'' \<mapsto> 7]\<rparr>))"
proof -
  have h: "list_all (\<lambda>region. fulfilled (getWeather all_fine region) \<and>
       fulfilled (analyzeThreat all_fine region)) regions"
    by (simp add: regions_def getWeather_def analyzeThreat_def all_fine_def api_request_def
        timeout_def)
  then have "\<forall>region \<in> set regions. fulfilled (getWeather all_fine region) \<and>
       fulfilled (analyzeThreat all_fine region)"
    by (simp add: list_all_iff)
  then show ?thesis
    using h merge_idempotent_on_success[of all_fine all_fine
        "WeatherMonitor_mount\<lparr>weatherData := [''pune'' \<mapsto> 7]\<rparr>"]
    by blast
qed

subsection \<open>The services\<close>

lemma show_nat_20: "show_nat 20 = ''20''"
  by (simp add: show_nat.simps)

text \<open>
  Claim C8, as the code has it. A service call is rejected exactly when its request is
  rejected, with the same error, and is fulfilled with the data of the response otherwise.
  A request that takes longer than the timeout of the axios instance is rejected with
  \<open>ECONNABORTED\<close>, and so is the service call: nothing is turned into a value at the
  service. The same holds for the alerts request the panel makes, with limit 20.
\<close>

theorem fetcher_rejects_with_transport_error:
  "(getWeather api_get city = Rejected e \<longleftrightarrow> api_get (''/weather/'' @ city) = Rejected e)
   \<and> (getWeather api_get city = Fulfilled d \<longleftrightarrow>
        (\<exists>st. api_get (''/weather/'' @ city) = Fulfilled (Response d st)))
   \<and> (timeout < elapsed_ms x \<longrightarrow>
        getWeather (\<lambda>url. api_request x) city = Rejected ECONNABORTED)
   \<and> (getAlerts alerts_get 20 = Rejected e \<longleftrightarrow> alerts_get ''/alerts?limit=20'' = Rejected e)
   \<and> (timeout < elapsed_ms y \<longrightarrow>
        getAlerts (\<lambda>url. api_request y) 20 = Rejected ECONNABORTED)"
proof (intro conjI impI)
  show "getWeather api_get city = Fulfilled d \<longleftrightarrow>
        (\<exists>st. api_get (''/weather/'' @ city) = Fulfilled (Response d st))"
  proof (cases "api_get (''/weather/'' @ city)")
    case (Fulfilled r)
    then show ?thesis by (cases r) (auto simp: getWeather_def)
  next
    case (Rejected e)
    then show ?thesis by (simp add: getWeather_def)
  qed
qed (simp_all add: getWeather_def getAlerts_def then_promise_rejected api_request_def
    show_nat_20)

text \<open>Claim C8 at a concrete input: requests that take 10001 ms.\<close>

theorem fetcher_rejects_with_transport_error_witness:
  "timeout < elapsed_ms \<lparr>elapsed_ms = 10001, reply = Replied 200 (25::nat)\<rparr> \<and>
   getWeather (\<lambda>url. api_request \<lparr>elapsed_ms = 10001, reply = Replied 200 (25::nat)\<rparr>) ''chennai''
     = Rejected ECONNABORTED \<and>
   getAlerts (\<lambda>url. api_request \<lparr>elapsed_ms = 10001, reply = Replied 200 [4::nat]\<rparr>) 20
     = Rejected ECONNABORTED"
proof -
  have h: "timeout < elapsed_ms \<lparr>elapsed_ms = 10001, reply = Replied 200 (25::nat)\<rparr>"
    and h': "timeout < elapsed_ms \<lparr>elapsed_ms = 10001, reply = Replied 200 [4::nat]\<rparr>"
    by (simp_all add: timeout_def)
  show ?thesis
    using h h' fetcher_rejects_with_transport_error[of all_fine "''chennai''" ECONNABORTED 0
        "\<lparr>elapsed_ms = 10001, reply = Replied 200 (25::nat)\<rparr>" two_alerts
        "\<lparr>elapsed_ms = 10001, reply = Replied 200 [4::nat]\<rparr>"]
    by blast
qed

text \<open>
  Claim C8 as stated fails: a weather request that takes a minute, and an alerts request
  answered with status 503, leave their service as rejections carrying the axios error.
\<close>

theorem raw_timeout_escapes_counterexample:
  "getWeather (\<lambda>url. api_request \<lparr>elapsed_ms = 60000, reply = Replied 200 (30::nat)\<rparr>) ''delhi''
     = Rejected ECONNABORTED \<and>
   getAlerts (\<lambda>url. api_request \<lparr>elapsed_ms = 3, reply = Replied 503 ([]::nat list)\<rparr>) 20
     = Rejected (ERR_BAD_RESPONSE 503)"
  by (simp add: getWeather_def getAlerts_def api_request_def timeout_def)

subsection \<open>The life of an instance\<close>

lemma run_Nil: "run step s [] = s"
  by (simp add: run_def)

lemma run_snoc: "run step s (es @ [e]) = step (run step s es) e"
  by (simp add: run_def)

lemma run_Cons: "run step s (e # es) = run step (step s e) es"
  by (simp add: run_def)

lemmas polling_defs = setLoading_def issue_def settle_def cleanup_def

lemma loading_fetchAlerts: "loading (fetchAlerts api_get s) = False"
  by (simp add: fetchAlerts_def setLoading_def)

lemma loading_fetchDashboardData: "loading (fetchDashboardData api_get s) = False"
  by (simp add: fetchDashboardData_def setLoading_def)

lemma loading_fetchWeatherData_resume: "loading (fetchWeatherData_resume api_get api_post s) = False"
  by (simp add: fetchWeatherData_resume_def setLoading_def setRefreshing_def)

lemma AlertsPanel_loading_inv:
  "(loading (run AlertsPanel_step AlertsPanel_mount es) \<longleftrightarrow> (\<forall>n. Fetch_settles n \<notin> set es)) \<and>
   (loading (run AlertsPanel_step AlertsPanel_mount es) \<longrightarrow>
      0 < inflight (run AlertsPanel_step AlertsPanel_mount es) \<and>
      posting (run AlertsPanel_step AlertsPanel_mount es) = 0 \<and>
      chained (run AlertsPanel_step AlertsPanel_mount es) = 0)"
proof (induction es rule: rev_induct)
  case Nil
  then show ?case by (simp add: run_Nil AlertsPanel_mount_def issue_def)
next
  case (snoc e es)
  let ?s = "run AlertsPanel_step AlertsPanel_mount es"
  show ?case
  proof (cases e)
    case (Fetch_settles n)
    with snoc show ?thesis
      by (auto simp: run_snoc loading_fetchAlerts)
  next
    case (Generate_settles m)
    with snoc show ?thesis
      by (auto simp: run_snoc setGenerating_def split: settled.splits)
  next
    case (Chained_settles n)
    with snoc show ?thesis
      by (auto simp: run_snoc setGenerating_def loading_fetchAlerts)
  qed (use snoc in \<open>auto simp: run_snoc polling_defs setGenerating_def\<close>)
qed

lemma SystemOverview_loading_inv:
  "(loading (run SystemOverview_step SystemOverview_mount es) \<longleftrightarrow> (\<forall>n. Fetch_settles n \<notin> set es)) \<and>
   (loading (run SystemOverview_step SystemOverview_mount es) \<longrightarrow>
      0 < inflight (run SystemOverview_step SystemOverview_mount es))"
proof (induction es rule: rev_induct)
  case Nil
  then show ?case by (simp add: run_Nil SystemOverview_mount_def issue_def)
next
  case (snoc e es)
  show ?case
  proof (cases e)
    case (Fetch_settles n)
    with snoc show ?thesis
      by (auto simp: run_snoc loading_fetchDashboardData)
  qed (use snoc in \<open>auto simp: run_snoc polling_defs\<close>)
qed

lemma WeatherMonitor_loading_inv:
  "(loading (run WeatherMonitor_step WeatherMonitor_mount es) \<longleftrightarrow> (\<forall>n. Fetch_settles n \<notin> set es)) \<and>
   (loading (run WeatherMonitor_step WeatherMonitor_mount es) \<longrightarrow>
      0 < inflight (run WeatherMonitor_step WeatherMonitor_mount es))"
proof (induction es rule: rev_induct)
  case Nil
  then show ?case
    by (simp add: run_Nil WeatherMonitor_mount_def issue_def fetchWeatherData_begin_def
        setRefreshing_def)
next
  case (snoc e es)
  show ?case
  proof (cases e)
    case (Fetch_settles n)
    with snoc show ?thesis
      by (cases n) (auto simp: run_snoc loading_fetchWeatherData_resume)
  qed (use snoc in \<open>auto simp: run_snoc polling_defs fetchWeatherData_begin_def setRefreshing_def\<close>)
qed

text \<open>
  Claim C9. In a run of the alerts panel, the dashboard or the weather monitor from its
  mount, \<open>loading\<close> is true exactly as long as no fetch has settled: the first fetch
  that settles, fulfilled or rejected, makes it false, and no later event makes it true
  again. In \<^verbatim>\<open>CitizenReports\<close>, \<^verbatim>\<open>fetchReports\<close> ends with \<open>loading\<close>
  false and the other functions leave it as it is.
\<close>

theorem loading_shown_until_first_completion:
  "(loading (run AlertsPanel_step AlertsPanel_mount es) \<longleftrightarrow> (\<forall>n. Fetch_settles n \<notin> set es)) \<and>
   (loading (run SystemOverview_step SystemOverview_mount es') \<longleftrightarrow>
      (\<forall>n. Fetch_settles n \<notin> set es')) \<and>
   (loading (run WeatherMonitor_step WeatherMonitor_mount es'') \<longleftrightarrow>
      (\<forall>n. Fetch_settles n \<notin> set es'')) \<and>
   \<not> loading (fetchReports reports_get r) \<and>
   loading (handleReportSubmitted r) = loading r \<and>
   loading (setShowForm b r) = loading r"
proof -
  have "\<not> loading (fetchReports reports_get r)"
    by (simp add: fetchReports_def setLoading_def)
  moreover have "loading (handleReportSubmitted r) = loading r"
    by (simp add: handleReportSubmitted_def setShowForm_def issue_def)
  moreover have "loading (setShowForm b r) = loading r"
    by (simp add: setShowForm_def)
  ultimately show ?thesis
    using AlertsPanel_loading_inv[of es] SystemOverview_loading_inv[of es']
      WeatherMonitor_loading_inv[of es''] by blast
qed

lemma AlertsPanel_step_armed:
  "interval (AlertsPanel_step s e) = (interval s \<and> e \<noteq> Unmount) \<and>
   mounted (AlertsPanel_step s e) = (mounted s \<and> e \<noteq> Unmount)"
  by (cases e)
    (auto simp: polling_defs fetchAlerts_def setAlerts_def setGenerating_def
      split: settled.splits)

lemma WeatherMonitor_step_armed:
  "interval (WeatherMonitor_step s e) = (interval s \<and> e \<noteq> Unmount) \<and>
   mounted (WeatherMonitor_step s e) = (mounted s \<and> e \<noteq> Unmount)"
proof (cases e)
  case (Fetch_settles n)
  then show ?thesis
    by (cases n)
      (auto simp: polling_defs fetchWeatherData_resume_def setRefreshing_def
        setWeatherData_def setThreatAnalyses_def split: settled.splits)
qed (auto simp: polling_defs fetchWeatherData_begin_def setRefreshing_def)

lemma AlertsPanel_run_armed:
  "interval (run AlertsPanel_step s es) = (interval s \<and> Unmount \<notin> set es) \<and>
   mounted (run AlertsPanel_step s es) = (mounted s \<and> Unmount \<notin> set es)"
  by (induction es rule: rev_induct) (auto simp: run_Nil run_snoc AlertsPanel_step_armed)

lemma WeatherMonitor_run_armed:
  "interval (run WeatherMonitor_step s es) = (interval s \<and> Unmount \<notin> set es) \<and>
   mounted (run WeatherMonitor_step s es) = (mounted s \<and> Unmount \<notin> set es)"
  by (induction es rule: rev_induct) (auto simp: run_Nil run_snoc WeatherMonitor_step_armed)

lemma AlertsPanel_mount_armed: "interval AlertsPanel_mount \<and> mounted AlertsPanel_mount"
  by (simp add: AlertsPanel_mount_def issue_def)

lemma WeatherMonitor_mount_armed: "interval WeatherMonitor_mount \<and> mounted WeatherMonitor_mount"
  by (simp add: WeatherMonitor_mount_def issue_def fetchWeatherData_begin_def setRefreshing_def)

text \<open>
  Claim C5, as the code has it. While the timer is armed, every tick starts a further
  fetch, whatever is in flight, and leaves the timer armed; in a run from the mount the
  timer is armed exactly until the unmount. No function of the components looks at
  whether a fetch is in flight.
\<close>

theorem tick_starts_cycle_unguarded:
  "(interval s \<longrightarrow>
      inflight (AlertsPanel_step s Tick) = Suc (inflight s) \<and> interval (AlertsPanel_step s Tick))
   \<and> (interval w \<longrightarrow>
      inflight (WeatherMonitor_step w Tick) = Suc (inflight w) \<and>
      interval (WeatherMonitor_step w Tick))
   \<and> (interval (run AlertsPanel_step AlertsPanel_mount es) \<longleftrightarrow> Unmount \<notin> set es)
   \<and> (interval (run WeatherMonitor_step WeatherMonitor_mount es') \<longleftrightarrow> Unmount \<notin> set es')"
proof (intro conjI impI)
  show "interval (run AlertsPanel_step AlertsPanel_mount es) \<longleftrightarrow> Unmount \<notin> set es"
    by (simp add: AlertsPanel_run_armed AlertsPanel_mount_armed)
  show "interval (run WeatherMonitor_step WeatherMonitor_mount es') \<longleftrightarrow> Unmount \<notin> set es'"
    by (simp add: WeatherMonitor_run_armed WeatherMonitor_mount_armed)
qed (simp_all add: issue_def fetchWeatherData_begin_def setRefreshing_def)

lemma two_alerts_get: "getAlerts two_alerts 20 = Fulfilled [1, 2]"
  by (simp add: getAlerts_def two_alerts_def api_request_def timeout_def)

lemma server_down_get: "getAlerts server_down 20 = Rejected ERR_NETWORK"
  by (simp add: getAlerts_def server_down_def api_request_def timeout_def)

lemma AlertsPanel_after_first:
  "run AlertsPanel_step AlertsPanel_mount [Fetch_settles two_alerts] =
     \<lparr>loading = False, interval = True, mounted = True, inflight = 0, published = [[1, 2]],
      alerts = [1, 2], generating = False, posting = 0, chained = 0\<rparr>"
  by (simp add: run_def AlertsPanel_mount_def polling_defs fetchAlerts_fulfilled[OF two_alerts_get])

lemma AlertsPanel_after_tick:
  "run AlertsPanel_step AlertsPanel_mount [Fetch_settles two_alerts, Tick] =
     \<lparr>loading = False, interval = True, mounted = True, inflight = 1, published = [[1, 2]],
      alerts = [1, 2], generating = False, posting = 0, chained = 0\<rparr>"
  using AlertsPanel_after_first by (simp add: run_def issue_def)

text \<open>Claim C5 at a concrete state: a tick with one fetch in flight.\<close>

theorem tick_starts_cycle_unguarded_witness:
  "interval (run AlertsPanel_step AlertsPanel_mount [Fetch_settles two_alerts, Tick]) \<and>
   inflight (run AlertsPanel_step AlertsPanel_mount [Fetch_settles two_alerts, Tick]) = 1 \<and>
   inflight (AlertsPanel_step
      (run AlertsPanel_step AlertsPanel_mount [Fetch_settles two_alerts, Tick]) Tick) = 2"
proof -
  let ?s = "run AlertsPanel_step AlertsPanel_mount [Fetch_settles two_alerts, Tick]"
  have i: "interval ?s" and n: "inflight ?s = 1"
    by (simp_all add: AlertsPanel_after_tick)
  from i have "inflight (AlertsPanel_step ?s Tick) = Suc (inflight ?s)"
    using tick_starts_cycle_unguarded[of ?s, THEN conjunct1] by blast
  with n have "inflight (AlertsPanel_step ?s Tick) = 2"
    by (simp del: AlertsPanel_step.simps)
  with i n show ?thesis by blast
qed

text \<open>
  Claim C5 as stated fails: the user clicks Refresh just before a tick; the tick is not
  dropped, and two fetches are in flight.
\<close>

theorem overlapping_cycles_counterexample:
  "inflight (run AlertsPanel_step AlertsPanel_mount
      [Fetch_settles two_alerts, Click_Refresh, Tick]) = 2"
  using AlertsPanel_after_first by (simp add: run_def issue_def)


lemma WeatherMonitor_after_first:
  "run WeatherMonitor_step WeatherMonitor_mount [Fetch_settles (all_fine, all_fine)] =
     \<lparr>loading = False, interval = True, mounted = True, inflight = 0,
      published = [new_record (map (\<lambda>r. (r, 30)) regions)],
      weatherData = new_record (map (\<lambda>r. (r, 30)) regions),
      threatAnalyses = new_record (map (\<lambda>r. (r, 30)) regions), refreshing = False\<rparr>"
  by (simp add: run_def WeatherMonitor_mount_def fetchWeatherData_begin_def issue_def
      settle_def setRefreshing_def resume_fulfilled[OF all_fine_try])

text \<open>
  Claim C6, as the code has it. In the alerts panel every click on Refresh starts a fetch
  at once, whatever is in flight. In the weather monitor a click while \<open>refreshing\<close>
  is true does nothing (the button is disabled) and is not remembered; a click while it is
  false starts a fetch at once.
\<close>

theorem refresh_not_coalesced:
  "(mounted s \<and> \<not> loading s \<longrightarrow>
      inflight (AlertsPanel_step s Click_Refresh) = Suc (inflight s))
   \<and> (refreshing w \<longrightarrow> WeatherMonitor_step w Click_Refresh = w)
   \<and> (mounted w \<and> \<not> loading w \<and> \<not> refreshing w \<longrightarrow>
      inflight (WeatherMonitor_step w Click_Refresh) = Suc (inflight w) \<and>
      refreshing (WeatherMonitor_step w Click_Refresh))"
  by (simp add: issue_def fetchWeatherData_begin_def setRefreshing_def)

text \<open>Claim C6 at concrete states of both components, each with a fetch in flight.\<close>

theorem refresh_not_coalesced_witness:
  "inflight (run AlertsPanel_step AlertsPanel_mount [Fetch_settles two_alerts, Tick]) = 1 \<and>
   inflight (AlertsPanel_step
      (run AlertsPanel_step AlertsPanel_mount [Fetch_settles two_alerts, Tick])
      Click_Refresh) = 2 \<and>
   refreshing (run WeatherMonitor_step WeatherMonitor_mount
      [Fetch_settles (all_fine, all_fine), Click_Refresh]) \<and>
   WeatherMonitor_step
      (run WeatherMonitor_step WeatherMonitor_mount
        [Fetch_settles (all_fine, all_fine), Click_Refresh]) Click_Refresh =
    run WeatherMonitor_step WeatherMonitor_mount
      [Fetch_settles (all_fine, all_fine), Click_Refresh]"
proof -
  let ?s = "run AlertsPanel_step AlertsPanel_mount [Fetch_settles two_alerts, Tick]"
  let ?w = "run WeatherMonitor_step WeatherMonitor_mount
      [Fetch_settles (all_fine, all_fine), Click_Refresh]"
  have s: "mounted ?s \<and> \<not> loading ?s" and n: "inflight ?s = 1"
    by (simp_all add: AlertsPanel_after_tick)
  have w: "refreshing ?w"
    using WeatherMonitor_after_first
    by (simp add: run_def issue_def fetchWeatherData_begin_def setRefreshing_def)
  have "inflight (AlertsPanel_step ?s Click_Refresh) = Suc (inflight ?s)"
    using s refresh_not_coalesced[of ?s ?w, THEN conjunct1] by blast
  with n have "inflight (AlertsPanel_step ?s Click_Refresh) = 2"
    by (simp del: AlertsPanel_step.simps)
  moreover have "WeatherMonitor_step ?w Click_Refresh = ?w"
    using w refresh_not_coalesced[of ?s ?w, THEN conjunct2, THEN conjunct1] by blast
  ultimately show ?thesis using n w by blast
qed

text \<open>
  Claim C6 as stated fails both ways: three clicks in the alerts panel leave three fetches
  in flight together; in the weather monitor the second click is lost, and after the fetch
  in flight has settled nothing runs.
\<close>

theorem refresh_not_coalesced_counterexample:
  "inflight (run AlertsPanel_step AlertsPanel_mount
      [Fetch_settles two_alerts, Click_Refresh, Click_Refresh, Click_Refresh]) = 3 \<and>
   inflight (run WeatherMonitor_step WeatherMonitor_mount
      [Fetch_settles (all_fine, all_fine), Click_Refresh, Click_Refresh]) = 1 \<and>
   inflight (run WeatherMonitor_step WeatherMonitor_mount
      [Fetch_settles (all_fine, all_fine), Click_Refresh, Click_Refresh,
       Fetch_settles (all_fine, all_fine)]) = 0"
proof -
  have "inflight (run AlertsPanel_step AlertsPanel_mount
      [Fetch_settles two_alerts, Click_Refresh, Click_Refresh, Click_Refresh]) = 3"
    using AlertsPanel_after_first by (simp add: run_def issue_def)
  moreover have "inflight (run WeatherMonitor_step WeatherMonitor_mount
      [Fetch_settles (all_fine, all_fine), Click_Refresh, Click_Refresh]) = 1"
    using WeatherMonitor_after_first
    by (simp add: run_def issue_def fetchWeatherData_begin_def setRefreshing_def)
  moreover have "inflight (run WeatherMonitor_step WeatherMonitor_mount
      [Fetch_settles (all_fine, all_fine), Click_Refresh, Click_Refresh,
       Fetch_settles (all_fine, all_fine)]) = 0"
    using WeatherMonitor_after_first
    by (simp add: run_def issue_def settle_def fetchWeatherData_begin_def setRefreshing_def
        resume_fulfilled[OF all_fine_try])
  ultimately show ?thesis by blast
qed


lemma AlertsPanel_step_unmounted:
  "\<not> mounted s \<Longrightarrow>
     published (AlertsPanel_step s e) = published s \<and> alerts (AlertsPanel_step s e) = alerts s"
  by (cases e)
    (auto simp: polling_defs fetchAlerts_unmounted setGenerating_def split: settled.splits)

lemma AlertsPanel_run_unmounted:
  "\<not> mounted s \<Longrightarrow>
     published (run AlertsPanel_step s es) = published s \<and>
     alerts (run AlertsPanel_step s es) = alerts s"
proof (induction es rule: rev_induct)
  case Nil
  then show ?case by (simp add: run_Nil)
next
  case (snoc e es)
  then have "\<not> mounted (run AlertsPanel_step s es)"
    by (simp add: AlertsPanel_run_armed)
  then show ?case
    using snoc AlertsPanel_step_unmounted[of "run AlertsPanel_step s es" e]
    by (simp add: run_snoc del: AlertsPanel_step.simps)
qed

lemma WeatherMonitor_step_unmounted:
  "\<not> mounted s \<Longrightarrow>
     published (WeatherMonitor_step s e) = published s \<and>
     weatherData (WeatherMonitor_step s e) = weatherData s \<and>
     threatAnalyses (WeatherMonitor_step s e) = threatAnalyses s"
proof (cases e)
  case (Fetch_settles n)
  assume "\<not> mounted s"
  with Fetch_settles show ?thesis
    by (cases n) (simp add: resume_unmounted settle_def)
qed (auto simp: polling_defs fetchWeatherData_begin_def setRefreshing_def)

lemma WeatherMonitor_run_unmounted:
  "\<not> mounted s \<Longrightarrow>
     published (run WeatherMonitor_step s es) = published s \<and>
     weatherData (run WeatherMonitor_step s es) = weatherData s \<and>
     threatAnalyses (run WeatherMonitor_step s es) = threatAnalyses s"
proof (induction es rule: rev_induct)
  case Nil
  then show ?case by (simp add: run_Nil)
next
  case (snoc e es)
  then have "\<not> mounted (run WeatherMonitor_step s es)"
    by (simp add: WeatherMonitor_run_armed)
  then show ?case
    using snoc WeatherMonitor_step_unmounted[of "run WeatherMonitor_step s es" e]
    by (simp add: run_snoc del: WeatherMonitor_step.simps)
qed

text \<open>
  Claim C7. After the unmount, whatever happens next, the timer is not armed and a tick
  does nothing; the view receives no further data (\<open>published\<close> stays as it was at the
  unmount) and the displayed data never changes. A fetch that was in flight at the unmount
  still settles, and so does one that \<^verbatim>\<open>generateTestAlerts\<close> starts afterwards: the
  result is passed to the data setter of an unmounted component and is discarded. The
  code keeps no pending-refresh flag, so there is none to cancel.
\<close>

theorem no_update_after_unmount:
  "\<not> interval (run AlertsPanel_step (AlertsPanel_step s Unmount) es)
   \<and> published (run AlertsPanel_step (AlertsPanel_step s Unmount) es) = published s
   \<and> alerts (run AlertsPanel_step (AlertsPanel_step s Unmount) es) = alerts s
   \<and> AlertsPanel_step (run AlertsPanel_step (AlertsPanel_step s Unmount) es) Tick =
       run AlertsPanel_step (AlertsPanel_step s Unmount) es
   \<and> (0 < inflight s \<longrightarrow>
        inflight (AlertsPanel_step (AlertsPanel_step s Unmount) (Fetch_settles api_get)) =
          inflight s - 1)
   \<and> \<not> interval (run WeatherMonitor_step (WeatherMonitor_step w Unmount) es')
   \<and> published (run WeatherMonitor_step (WeatherMonitor_step w Unmount) es') = published w
   \<and> weatherData (run WeatherMonitor_step (WeatherMonitor_step w Unmount) es') = weatherData w
   \<and> threatAnalyses (run WeatherMonitor_step (WeatherMonitor_step w Unmount) es') =
       threatAnalyses w
   \<and> WeatherMonitor_step (run WeatherMonitor_step (WeatherMonitor_step w Unmount) es') Tick =
       run WeatherMonitor_step (WeatherMonitor_step w Unmount) es'
   \<and> (0 < inflight w \<longrightarrow>
        inflight (WeatherMonitor_step (WeatherMonitor_step w Unmount)
          (Fetch_settles (weather_get, threat_post))) = inflight w - 1)"
proof -
  let ?a = "run AlertsPanel_step (AlertsPanel_step s Unmount) es"
  let ?m = "run WeatherMonitor_step (WeatherMonitor_step w Unmount) es'"
  have a0: "\<not> mounted (AlertsPanel_step s Unmount)" "published (AlertsPanel_step s Unmount) = published s"
    "alerts (AlertsPanel_step s Unmount) = alerts s"
    by (simp_all add: cleanup_def)
  have m0: "\<not> mounted (WeatherMonitor_step w Unmount)"
    "published (WeatherMonitor_step w Unmount) = published w"
    "weatherData (WeatherMonitor_step w Unmount) = weatherData w"
    "threatAnalyses (WeatherMonitor_step w Unmount) = threatAnalyses w"
    by (simp_all add: cleanup_def)
  have ai: "\<not> interval ?a"
    by (simp add: AlertsPanel_run_armed cleanup_def)
  have mi: "\<not> interval ?m"
    by (simp add: WeatherMonitor_run_armed cleanup_def)
  have ap: "published ?a = published s \<and> alerts ?a = alerts s"
    using AlertsPanel_run_unmounted[OF a0(1), of es] a0(2,3) by simp
  have mp: "published ?m = published w \<and> weatherData ?m = weatherData w \<and>
      threatAnalyses ?m = threatAnalyses w"
    using WeatherMonitor_run_unmounted[OF m0(1), of es'] m0(2-4) by simp
  have at: "AlertsPanel_step ?a Tick = ?a"
    using ai by simp
  have mt: "WeatherMonitor_step ?m Tick = ?m"
    using mi by simp
  have af: "0 < inflight s \<longrightarrow>
      inflight (AlertsPanel_step (AlertsPanel_step s Unmount) (Fetch_settles api_get)) =
        inflight s - 1"
    by (simp add: cleanup_def settle_def fetchAlerts_unmounted)
  have mf: "0 < inflight w \<longrightarrow>
      inflight (WeatherMonitor_step (WeatherMonitor_step w Unmount)
        (Fetch_settles (weather_get, threat_post))) = inflight w - 1"
    by (simp add: cleanup_def settle_def resume_unmounted)
  show ?thesis
    using ai ap at af mi mp mt mf by blast
qed

text \<open>
  Claim C7 at a concrete run: the alerts panel is unmounted during its first fetch, which
  then settles with two alerts.
\<close>

theorem no_update_after_unmount_witness:
  "0 < inflight (AlertsPanel_mount :: nat AlertsPanel) \<and>
   inflight (AlertsPanel_step (AlertsPanel_step (AlertsPanel_mount :: nat AlertsPanel) Unmount)
      (Fetch_settles two_alerts)) = 0 \<and>
   published (run AlertsPanel_step (AlertsPanel_step AlertsPanel_mount Unmount)
      [Fetch_settles two_alerts]) = [] \<and>
   alerts (run AlertsPanel_step (AlertsPanel_step AlertsPanel_mount Unmount)
      [Fetch_settles two_alerts]) = []"
proof -
  let ?s = "AlertsPanel_mount :: nat AlertsPanel"
  have n: "0 < inflight ?s" and i: "inflight ?s = 1" and p: "published ?s = []"
    and a: "alerts ?s = []"
    by (simp_all add: AlertsPanel_mount_def issue_def)
  note t = no_update_after_unmount[of ?s "[Fetch_settles two_alerts]" two_alerts
      "WeatherMonitor_mount :: (nat, nat) WeatherMonitor" "[]" all_fine all_fine]
  have "inflight (AlertsPanel_step (AlertsPanel_step ?s Unmount) (Fetch_settles two_alerts)) =
      inflight ?s - 1"
    using n t by blast
  then have "inflight (AlertsPanel_step (AlertsPanel_step ?s Unmount)
      (Fetch_settles two_alerts)) = 0"
    using i by (simp del: AlertsPanel_step.simps)
  moreover have "published (run AlertsPanel_step (AlertsPanel_step ?s Unmount)
      [Fetch_settles two_alerts]) = published ?s"
    using t by blast
  moreover have "alerts (run AlertsPanel_step (AlertsPanel_step ?s Unmount)
      [Fetch_settles two_alerts]) = alerts ?s"
    using t by blast
  ultimately show ?thesis using n p a by (simp del: AlertsPanel_step.simps)
qed

text \<open>
  Claim C9 at concrete runs: no fetch settled yet; a first fetch that failed, followed by
  ticks and clicks.
\<close>

theorem loading_shown_until_first_completion_witness:
  "loading (run AlertsPanel_step AlertsPanel_mount [Tick, Click_Refresh, Tick]) \<and>
   \<not> loading (run AlertsPanel_step AlertsPanel_mount
      [Tick, Fetch_settles server_down, Tick, Click_Generate, Click_Refresh]) \<and>
   \<not> loading (run WeatherMonitor_step WeatherMonitor_mount
      [Fetch_settles (mumbai_times_out, all_fine), Tick, Click_Refresh])"
proof -
  have "\<forall>n. Fetch_settles n \<notin> set [Tick, Click_Refresh, Tick]" by simp
  then have "loading (run AlertsPanel_step AlertsPanel_mount [Tick, Click_Refresh, Tick])"
    using loading_shown_until_first_completion[of "[Tick, Click_Refresh, Tick]", THEN conjunct1]
    by blast
  moreover have "\<not> loading (run AlertsPanel_step AlertsPanel_mount
      [Tick, Fetch_settles server_down, Tick, Click_Generate, Click_Refresh])"
    using loading_shown_until_first_completion[of
        "[Tick, Fetch_settles server_down, Tick, Click_Generate, Click_Refresh]", THEN conjunct1]
    by simp
  moreover have "\<not> loading (run WeatherMonitor_step WeatherMonitor_mount
      [Fetch_settles (mumbai_times_out, all_fine), Tick, Click_Refresh])"
    using loading_shown_until_first_completion[of "[]" "[]"
        "[Fetch_settles (mumbai_times_out, all_fine), Tick, Click_Refresh]",
        THEN conjunct2, THEN conjunct2, THEN conjunct1]
    by simp
  ultimately show ?thesis by blast
qed

subsection \<open>Entries of keys a cycle does not cover\<close>






subsection \<open>The report form\<close>

lemma submitReport_accepted: "submitReport report_accepted r = Fulfilled ''stored''"
  by (simp add: submitReport_def report_accepted_def api_request_def timeout_def)

lemma submitReport_refused: "submitReport report_refused r = Rejected (ERR_BAD_RESPONSE 500)"
  by (simp add: submitReport_def report_refused_def api_request_def timeout_def)

text \<open>
  Claim C10. \<^verbatim>\<open>handleSubmit\<close> applies the callback \<^verbatim>\<open>onSubmitted\<close> to the
  parent once when \<^verbatim>\<open>submitReport\<close> is fulfilled and leaves the parent untouched
  when it is rejected; \<open>submitting\<close> is true while the request is in flight and false
  afterwards on both paths. With the callback \<^verbatim>\<open>CitizenReports\<close> passes, the form
  is closed on success and \<open>showForm\<close> is unchanged on failure.
\<close>

theorem handleSubmit_calls_back_on_success_only:
  "snd (handleSubmit onSubmitted api_post (f, p)) =
     (if fulfilled (submitReport api_post (formData f)) then onSubmitted p else p)
   \<and> submitting (fst (handleSubmit_begin (f, p)))
   \<and> \<not> submitting (fst (handleSubmit onSubmitted api_post (f, p)))
   \<and> formData (fst (handleSubmit onSubmitted api_post (f, p))) = formData f
   \<and> snd (handleSubmit Suc api_post (f, n)) =
       (if fulfilled (submitReport api_post (formData f)) then n + 1 else n)
   \<and> showForm (snd (handleSubmit handleReportSubmitted api_post (f, q))) =
       (if fulfilled (submitReport api_post (formData f)) then False else showForm q)"
  by (cases "submitReport api_post (formData f)")
    (simp_all add: handleSubmit_def handleSubmit_begin_def handleSubmit_resume_def
      setSubmitting_def handleReportSubmitted_def setShowForm_def issue_def)

text \<open>Claim C10 at a concrete form, for an accepted and for a refused report.\<close>

theorem handleSubmit_calls_back_on_success_only_witness:
  "snd (handleSubmit Suc report_accepted (\<lparr>formData = 5, submitting = False\<rparr>, 0)) = 1 \<and>
   snd (handleSubmit Suc report_refused (\<lparr>formData = 5, submitting = False\<rparr>, 0)) = 0 \<and>
   \<not> submitting (fst (handleSubmit Suc report_refused (\<lparr>formData = 5, submitting = False\<rparr>, 0))) \<and>
   showForm (snd (handleSubmit handleReportSubmitted report_refused
      (\<lparr>formData = 5, submitting = False\<rparr>,
       \<lparr>loading = False, interval = True, mounted = True, inflight = 0, published = [[3::nat]],
        reports = [3], showForm = True\<rparr>)))"
proof -
  let ?f = "\<lparr>formData = 5::nat, submitting = False\<rparr>"
  let ?q = "\<lparr>loading = False, interval = True, mounted = True, inflight = 0,
        published = [[3::nat]], reports = [3], showForm = True\<rparr>"
  have "snd (handleSubmit Suc report_accepted (?f, 0)) = 1"
    using handleSubmit_calls_back_on_success_only[of Suc report_accepted ?f 0 0 ?q]
    by (simp add: submitReport_accepted)
  moreover have "snd (handleSubmit Suc report_refused (?f, 0)) = 0 \<and>
      \<not> submitting (fst (handleSubmit Suc report_refused (?f, 0))) \<and>
      showForm (snd (handleSubmit handleReportSubmitted report_refused (?f, ?q)))"
    using handleSubmit_calls_back_on_success_only[of Suc report_refused ?f 0 0 ?q]
    by (simp add: submitReport_refused)
  ultimately show ?thesis by blast
qed

end
